theory Spec2Isabelle
  imports Complex_Main
begin

section \<open>Beat and mini-beat extraction (omnizart/feature/beat\_for\_drum.py)\<close>

text \<open>
  Timestamps, intervals and tempi are Python floats in the source.  They are modelled as
  exact real numbers: rounding error, overflow to infinity and the representation of
  \<open>1 / n\<close> are outside the model.  A float that may fail to be a number is a
  \<open>real option\<close>: \<open>None\<close> stands for numpy's \<open>nan\<close> and \<open>inf\<close> (the mean of an empty slice,
  a division by zero), which numpy reports by a warning and not by an exception.
\<close>

subsection \<open>numpy and scipy primitives\<close>

text \<open>\<open>np.round\<close>: rounds to the nearest integer, a tie going to the even neighbour.\<close>

definition np_round :: "real \<Rightarrow> int" where
  "np_round x =
     (let f = \<lfloor>x\<rfloor>; r = x - of_int f
      in if r < 1 / 2 then f
         else if 1 / 2 < r then f + 1
         else if even f then f else f + 1)"

text \<open>
  \<open>np.arange(start, stop, step)\<close>: \<open>ceil((stop - start) / step)\<close> values \<open>start + i * step\<close>,
  none when that count is not positive.
\<close>

definition np_arange :: "real \<Rightarrow> real \<Rightarrow> real \<Rightarrow> real list" where
  "np_arange start stop step =
     map (\<lambda>i. start + real i * step) [0..<nat \<lceil>(stop - start) / step\<rceil>]"

text \<open>\<open>np.searchsorted(xs, v)\<close> (side left) on an ascending \<open>xs\<close>: the number of entries below \<open>v\<close>.\<close>

definition searchsorted :: "real list \<Rightarrow> real \<Rightarrow> nat" where
  "searchsorted xs v = length (takeWhile (\<lambda>a. a < v) xs)"

text \<open>
  Modelled from the spec: \<open>scipy.interpolate.interp1d(x, y, fill_value="extrapolate")\<close> is a
  library routine outside the repository; the spec describes it as "linear interpolation
  between known points, linear extrapolation outside the known range".  The model follows
  the library's evaluation: the segment is found by \<open>searchsorted\<close>, clipped to
  \<open>[1, len(x) - 1]\<close>, and the line through its two end points is evaluated at the query, so
  the first and the last segment are prolonged beyond the known range.
\<close>

definition interp1d :: "real list \<Rightarrow> real list \<Rightarrow> real \<Rightarrow> real" where
  "interp1d xs ys x_new =
     (let hi = min (max (searchsorted xs x_new) 1) (length xs - 1);
          lo = hi - 1;
          slope = (ys ! hi - ys ! lo) / (xs ! hi - xs ! lo)
      in slope * (x_new - xs ! lo) + ys ! lo)"

subsection \<open>\<open>extract_mini_beat_from_beat_arr\<close>\<close>

datatype error = ValueError | DivisionByZero | TimeoutError | KeyError

text \<open>Line 148: the number of divisions per beat.\<close>

definition divisions :: "int \<Rightarrow> int" where
  "divisions mini_beat_div_n = np_round (real_of_int mini_beat_div_n / 4)"

text \<open>Line 151: \<open>np.arange(len(beat_arr)) + 1\<close>, the beat indices counted from 1.\<close>

definition beat_abs_idx :: "real list \<Rightarrow> real list" where
  "beat_abs_idx beat_arr = map (\<lambda>i. real i + 1) [0..<length beat_arr]"

text \<open>Line 154: the fractional beat indices at which the beat map is sampled.\<close>

definition mini_beat_abs_idx :: "nat \<Rightarrow> int \<Rightarrow> real list" where
  "mini_beat_abs_idx n d = np_arange 0 (real n + 1) (1 / real_of_int d)"

text \<open>
  The whole function.  Fewer than two beats leave \<open>interp1d\<close> without a segment (the spec
  calls it a violated precondition; the library raises \<open>ValueError\<close> or yields no number,
  depending on its release): the model reports \<open>ValueError\<close>.  With zero divisions the
  step is \<open>1 / 0\<close>: numpy warns of the division by zero and goes on with a step that is no
  number; what follows is not modelled, the model stops there with \<open>DivisionByZero\<close>.
\<close>

definition extract_mini_beat_from_beat_arr :: "real list \<Rightarrow> real \<Rightarrow> int \<Rightarrow> error + real list" where
  "extract_mini_beat_from_beat_arr beat_arr audio_len_sec mini_beat_div_n =
     (let d = divisions mini_beat_div_n in
      if length beat_arr < 2 then Inl ValueError
      else if d = 0 then Inl DivisionByZero
      else
        let beat_map_func = interp1d (beat_abs_idx beat_arr) beat_arr;
            mini_beat_pos_t = map beat_map_func (mini_beat_abs_idx (length beat_arr) d);
            mini_beat_pos_t = filter (\<lambda>x. 0 \<le> x) mini_beat_pos_t;
            mini_beat_pos_t = filter (\<lambda>x. x \<le> audio_len_sec) mini_beat_pos_t
        in Inr mini_beat_pos_t)"

text \<open>The segment of the beat map that a query falls into, in closed form (used in proofs).\<close>

definition seg :: "nat \<Rightarrow> real \<Rightarrow> nat" where
  "seg n x = min (max (min n (nat (\<lceil>x\<rceil> - 1))) 1) (n - 1)"

subsection \<open>Tempo of a beat array (lines 80 to 93)\<close>

text \<open>\<open>np.mean\<close>: \<open>nan\<close> on an empty array.\<close>

definition np_mean :: "real list \<Rightarrow> real option" where
  "np_mean xs = (if xs = [] then None else Some (sum_list xs / real (length xs)))"

text \<open>\<open>xs[a:b]\<close> for indices that are not negative: both ends are clipped to the length.\<close>

definition py_slice :: "'a list \<Rightarrow> nat \<Rightarrow> nat \<Rightarrow> 'a list" where
  "py_slice xs a b = drop a (take b xs)"

text \<open>\<open>pred_beats[1:] - pred_beats[:-1]\<close>: the inter-beat intervals.\<close>

definition beat_diffs :: "real list \<Rightarrow> real list" where
  "beat_diffs pred_beats = map2 (-) (tl pred_beats) (butlast pred_beats)"

text \<open>The slice bounds \<open>int(len(pred_beats) * 0.2)\<close> and \<open>int(len(pred_beats) * 0.8)\<close>.\<close>

definition trim_lo :: "real list \<Rightarrow> nat" where
  "trim_lo pred_beats = nat \<lfloor>real (length pred_beats) * 0.2\<rfloor>"

definition trim_hi :: "real list \<Rightarrow> nat" where
  "trim_hi pred_beats = nat \<lfloor>real (length pred_beats) * 0.8\<rfloor>"

definition trimmed_intervals :: "real list \<Rightarrow> real list" where
  "trimmed_intervals pred_beats =
     py_slice (sort (beat_diffs pred_beats)) (trim_lo pred_beats) (trim_hi pred_beats)"

definition pred_beat_len :: "real list \<Rightarrow> real option" where
  "pred_beat_len pred_beats = np_mean (trimmed_intervals pred_beats)"

text \<open>\<open>60.0 / pred_beat_len\<close>: no number when the mean is none or zero.\<close>

definition pred_bpm :: "real list \<Rightarrow> real option" where
  "pred_bpm pred_beats =
     (case pred_beat_len pred_beats of
        None \<Rightarrow> None
      | Some m \<Rightarrow> if m = 0 then None else Some (60 / m))"

text \<open>\<open>np.mean([pred_bpm1, pred_bpm2, pred_bpm3])\<close>: a number when all three are.\<close>

definition pred_bpm_avg :: "real option \<Rightarrow> real option \<Rightarrow> real option \<Rightarrow> real option" where
  "pred_bpm_avg b1 b2 b3 =
     (case (b1, b2, b3) of
        (Some x, Some y, Some z) \<Rightarrow> np_mean [x, y, z]
      | _ \<Rightarrow> None)"

text \<open>
  The reading of the spec's words, for comparison: of the \<open>m\<close> sorted intervals the
  \<open>\<lfloor>0.2 m\<rfloor>\<close> fastest and the \<open>\<lfloor>0.2 m\<rfloor>\<close> slowest are discarded, and the tempo is 60 over
  the mean of the rest.
\<close>

definition spec_trimmed_intervals :: "real list \<Rightarrow> real list" where
  "spec_trimmed_intervals pred_beats =
     (let ds = sort (beat_diffs pred_beats); k = nat \<lfloor>real (length ds) * 0.2\<rfloor>
      in py_slice ds k (length ds - k))"

definition spec_bpm :: "real list \<Rightarrow> real option" where
  "spec_bpm pred_beats =
     (case np_mean (spec_trimmed_intervals pred_beats) of
        None \<Rightarrow> None
      | Some m \<Rightarrow> if m = 0 then None else Some (60 / m))"

subsection \<open>\<open>MadmomBeatTracking\<close>\<close>

text \<open>
  The madmom processors are an external library: each of the three pipelines (the neural
  activation followed by its decoder) is a parameter, a function of the thread count, the
  audio and, for the down-beat tracker, the tempo range.  The down-beat pipeline returns
  the first column of the decoder's output.
\<close>

record 'a madmom =
  DBNDownBeatTracking :: "int \<Rightarrow> 'a \<Rightarrow> real option \<Rightarrow> real option \<Rightarrow> real list"
  DBNBeatTracking :: "int \<Rightarrow> 'a \<Rightarrow> real list"
  BeatTracking :: "int \<Rightarrow> 'a \<Rightarrow> real list"

record MadmomBeatTracking =
  num_threads :: int
  parallel_workers :: int

definition get_dbn_down_beat ::
  "'a madmom \<Rightarrow> MadmomBeatTracking \<Rightarrow> 'a \<Rightarrow> real option \<Rightarrow> real option \<Rightarrow> real list" where
  "get_dbn_down_beat M self audio_data_in1 min_bpm_in max_bpm_in =
     DBNDownBeatTracking M (num_threads self) audio_data_in1 min_bpm_in max_bpm_in"

definition get_dbn_beat :: "'a madmom \<Rightarrow> MadmomBeatTracking \<Rightarrow> 'a \<Rightarrow> real list" where
  "get_dbn_beat M self audio_data_in2 = DBNBeatTracking M (num_threads self) audio_data_in2"

definition get_beat :: "'a madmom \<Rightarrow> MadmomBeatTracking \<Rightarrow> 'a \<Rightarrow> real list" where
  "get_beat M self audio_data_in3 = BeatTracking M (num_threads self) audio_data_in3"

text \<open>Lines 80 to 97: the three tempi, their mean, and the last tracking step.\<close>

definition last_step ::
  "'a madmom \<Rightarrow> MadmomBeatTracking \<Rightarrow> 'a \<Rightarrow> real list \<Rightarrow> real list \<Rightarrow> real list \<Rightarrow> real list" where
  "last_step M self audio_data pred_beats1 pred_beats2 pred_beats3 =
     (let avg = pred_bpm_avg (pred_bpm pred_beats1) (pred_bpm pred_beats2) (pred_bpm pred_beats3)
      in get_dbn_down_beat M self audio_data
           (map_option (\<lambda>a. a / 1.38) avg) (map_option (\<lambda>a. a * 1.38) avg))"

text \<open>
  The parallel branch.  The three jobs are the futures of lines 64 to 66; \<open>queue\<close> tags each
  with the name of its function, and \<open>submitted\<close> is the value each future holds once its job
  is done.
\<close>

datatype future = future_1 | future_2 | future_3

datatype func_name = dbn_down_beat | dbn_beat | beat

fun queue :: "future \<Rightarrow> func_name" where
  "queue future_1 = dbn_down_beat"
| "queue future_2 = dbn_beat"
| "queue future_3 = beat"

fun submitted :: "'a madmom \<Rightarrow> MadmomBeatTracking \<Rightarrow> 'a \<Rightarrow> future \<Rightarrow> real list" where
  "submitted M self audio_data future_1 = get_dbn_down_beat M self audio_data (Some 50) (Some 230)"
| "submitted M self audio_data future_2 = get_dbn_beat M self audio_data"
| "submitted M self audio_data future_3 = get_beat M self audio_data"

text \<open>
  What the run-time decides: the second, counted from the submission, at which each job
  is done, and the order in which Python iterates over the set of futures.
\<close>

record schedule =
  done_at :: "future \<Rightarrow> nat"
  iteration :: "future list"

text \<open>
  Leaving the \<open>with ProcessPoolExecutor(...)\<close> block (line 68 is its last line) shuts the
  executor down and waits, without a limit, until every submitted job is done: the clock
  then shows the latest completion.
\<close>

definition executor_exit :: "schedule \<Rightarrow> nat" where
  "executor_exit sch =
     max (done_at sch future_1) (max (done_at sch future_2) (done_at sch future_3))"

text \<open>
  \<open>concurrent.futures.as_completed(fs, timeout)\<close> called at second \<open>now\<close>: the futures that
  are done come first, the pending ones follow as they complete; \<open>TimeoutError\<close> is raised
  when a pending future is not done \<open>timeout\<close> seconds after the call.
\<close>

definition as_completed :: "schedule \<Rightarrow> nat \<Rightarrow> nat \<Rightarrow> error + future list" where
  "as_completed sch now timeout =
     (let finished = filter (\<lambda>f. done_at sch f \<le> now) (iteration sch);
          pending = filter (\<lambda>f. now < done_at sch f) (iteration sch)
      in if list_ex (\<lambda>f. now + timeout < done_at sch f) pending then Inl TimeoutError
         else Inr (finished @ sort_key (done_at sch) pending))"

text \<open>Lines 70 to 74: the results dictionary, filled in the order of completion.\<close>

definition collect ::
  "(future \<Rightarrow> real list) \<Rightarrow> future list \<Rightarrow> (func_name \<rightharpoonup> real list)" where
  "collect result completed = foldl (\<lambda>results f. results(queue f \<mapsto> result f)) Map.empty completed"

definition lookup :: "(func_name \<rightharpoonup> real list) \<Rightarrow> func_name \<Rightarrow> error + real list" where
  "lookup results k = (case results k of None \<Rightarrow> Inl KeyError | Some v \<Rightarrow> Inr v)"

definition process_sequential :: "'a madmom \<Rightarrow> MadmomBeatTracking \<Rightarrow> 'a \<Rightarrow> real list" where
  "process_sequential M self audio_data =
     (let pred_beats1 = get_dbn_down_beat M self audio_data (Some 50) (Some 230);
          pred_beats2 = get_dbn_beat M self audio_data;
          pred_beats3 = get_beat M self audio_data
      in last_step M self audio_data pred_beats1 pred_beats2 pred_beats3)"

definition process_parallel ::
  "'a madmom \<Rightarrow> MadmomBeatTracking \<Rightarrow> schedule \<Rightarrow> 'a \<Rightarrow> error + real list" where
  "process_parallel M self sch audio_data =
     (let now = executor_exit sch in
      case as_completed sch now 600 of
        Inl e \<Rightarrow> Inl e
      | Inr completed \<Rightarrow>
          let results = collect (submitted M self audio_data) completed in
          case lookup results dbn_down_beat of Inl e \<Rightarrow> Inl e | Inr pred_beats1 \<Rightarrow>
          case lookup results dbn_beat of Inl e \<Rightarrow> Inl e | Inr pred_beats2 \<Rightarrow>
          case lookup results beat of Inl e \<Rightarrow> Inl e | Inr pred_beats3 \<Rightarrow>
            Inr (last_step M self audio_data pred_beats1 pred_beats2 pred_beats3))"

text \<open>
  \<open>process\<close>: sequential when \<open>parallel_workers\<close> is 0; \<open>ProcessPoolExecutor\<close> refuses a
  worker count below 1 with a \<open>ValueError\<close>.
\<close>

definition process ::
  "'a madmom \<Rightarrow> MadmomBeatTracking \<Rightarrow> schedule \<Rightarrow> 'a \<Rightarrow> error + real list" where
  "process M self sch audio_data =
     (if parallel_workers self = 0 then Inr (process_sequential M self audio_data)
      else if parallel_workers self < 0 then Inl ValueError
      else process_parallel M self sch audio_data)"

subsection \<open>\<open>extract_mini_beat_from_beat_arr\<close> on a store of arrays\<close>

text \<open>
  To speak about the caller's array, the function is also written over an explicit store:
  a list of arrays, an array being referred to by its position.  \<open>np.array\<close>, \<open>np.arange\<close>
  and the arithmetic on arrays each make a new array; the source assigns to no element of
  an array it was given.
\<close>

type_synonym store = "real list list"

definition new_array :: "real list \<Rightarrow> store \<Rightarrow> nat \<times> store" where
  "new_array v s = (length s, s @ [v])"

definition extract_mini_beat_from_beat_arr_st ::
  "nat \<Rightarrow> real \<Rightarrow> int \<Rightarrow> store \<Rightarrow> (error + nat) \<times> store" where
  "extract_mini_beat_from_beat_arr_st beat_arr audio_len_sec mini_beat_div_n s0 =
     (let d = divisions mini_beat_div_n;
          (beat_time_ary_in, s1) = new_array (s0 ! beat_arr) s0;
          (beat_abs_idx_ref, s2) = new_array (beat_abs_idx (s1 ! beat_arr)) s1
      in if length (s2 ! beat_time_ary_in) < 2 then (Inl ValueError, s2)
         else if d = 0 then (Inl DivisionByZero, s2)
         else
           let beat_map_func = interp1d (s2 ! beat_abs_idx_ref) (s2 ! beat_time_ary_in);
               (mini_beat_abs_idx_ref, s3) =
                  new_array (mini_beat_abs_idx (length (s2 ! beat_arr)) d) s2;
               mini_beat_pos_t = map beat_map_func (s3 ! mini_beat_abs_idx_ref);
               (mini_beat_pos_t1, s4) = new_array (filter (\<lambda>x. 0 \<le> x) mini_beat_pos_t) s3;
               (mini_beat_pos_t2, s5) =
                  new_array (filter (\<lambda>x. x \<le> audio_len_sec) (s4 ! mini_beat_pos_t1)) s4
           in (Inr mini_beat_pos_t2, s5))"

text \<open>The array (or the error) that a call hands back, read from the store it leaves.\<close>

definition returned :: "(error + nat) \<times> store \<Rightarrow> error + real list" where
  "returned r = (case fst r of Inl e \<Rightarrow> Inl e | Inr p \<Rightarrow> Inr (snd r ! p))"

subsection \<open>Concrete inputs\<close>

text \<open>
  Stand-ins for the external trackers, used to run the model: a down-beat tracker that
  answers with two beats one slowest-tempo period apart, and two beat trackers with fixed
  answers.
\<close>

definition demo_madmom :: "real list madmom" where
  "demo_madmom =
     \<lparr>DBNDownBeatTracking =
        (\<lambda>threads audio lo hi. case lo of None \<Rightarrow> [] | Some l \<Rightarrow> [0, 60 / l]),
      DBNBeatTracking = (\<lambda>threads audio. [0, 1, 2]),
      BeatTracking = (\<lambda>threads audio. [0, 1 / 2, 1])\<rparr>"

definition demo_tracker :: MadmomBeatTracking where
  "demo_tracker = \<lparr>num_threads = 3, parallel_workers = 3\<rparr>"

text \<open>Every job takes 700 seconds; the set of futures is iterated from the third.\<close>

definition slow_schedule :: schedule where
  "slow_schedule = \<lparr>done_at = (\<lambda>f. 700), iteration = [future_3, future_1, future_2]\<rparr>"

section \<open>Properties\<close>

subsection \<open>The sampling grid and the beat map\<close>

lemma mini_beat_abs_idx_eq:
  assumes "1 \<le> d"
  shows "mini_beat_abs_idx n d = map (\<lambda>k. real k / real_of_int d) [0..<(n + 1) * nat d]"
proof -
  have "(real n + 1) / (1 / real_of_int d) = of_int (int ((n + 1) * nat d))"
    using assms by (simp add: algebra_simps)
  then have "nat \<lceil>(real n + 1 - 0) / (1 / real_of_int d)\<rceil> = (n + 1) * nat d"
    by (simp only: diff_zero ceiling_of_int nat_int)
  then show ?thesis
    unfolding mini_beat_abs_idx_def np_arange_def by simp
qed



lemma mini_beat_abs_idx_increasing:
  assumes "1 \<le> d"
  shows "sorted_wrt (<) (mini_beat_abs_idx n d)"
proof -
  have "real i / real_of_int d < real j / real_of_int d" if "i < j" for i j :: nat
    using that assms by (simp add: divide_strict_right_mono)
  then have "sorted_wrt (\<lambda>i j. real i / real_of_int d < real j / real_of_int d)
               [0..<(n + 1) * nat d]"
    by (intro sorted_wrt_mono_rel [OF _ sorted_wrt_upt])
  then show ?thesis
    by (simp only: mini_beat_abs_idx_eq [OF assms] sorted_wrt_map)
qed


lemma beat_abs_idx_nth: "i < length ys \<Longrightarrow> beat_abs_idx ys ! i = real i + 1"
  by (simp add: beat_abs_idx_def)

lemma length_beat_abs_idx: "length (beat_abs_idx ys) = length ys"
  by (simp add: beat_abs_idx_def)

lemma searchsorted_beat_abs_idx:
  "searchsorted (beat_abs_idx ys) x = min (length ys) (nat (\<lceil>x\<rceil> - 1))"
proof -
  let ?n = "min (length ys) (nat (\<lceil>x\<rceil> - 1))"
  let ?xs = "beat_abs_idx ys"
  have "takeWhile (\<lambda>a. a < x) ?xs = take ?n ?xs"
  proof (rule takeWhile_eq_take_P_nth)
    fix i assume "i < ?n" "i < length ?xs"
    then have "int i + 1 < \<lceil>x\<rceil>" by linarith
    then have "real_of_int (int i + 1) < x" by (simp only: less_ceiling_iff)
    then show "?xs ! i < x" using \<open>i < length ?xs\<close>
      by (simp add: beat_abs_idx_nth length_beat_abs_idx)
  next
    assume a: "?n < length ?xs"
    then have lt: "?n < length ys" by (simp only: length_beat_abs_idx)
    then have "?n = nat (\<lceil>x\<rceil> - 1)" by simp
    then have "\<lceil>x\<rceil> \<le> int ?n + 1" by linarith
    then have "x \<le> real_of_int (int ?n + 1)" by (simp only: ceiling_le_iff)
    then have "x \<le> real ?n + 1" by simp
    then show "\<not> ?xs ! ?n < x" by (simp only: beat_abs_idx_nth [OF lt])
  qed
  then show ?thesis by (simp add: searchsorted_def length_beat_abs_idx)
qed

text \<open>On the beat indices the interpolant is the line through the two beats of \<open>seg\<close>.\<close>

lemma interp1d_beat:
  assumes "2 \<le> length ys"
  shows "interp1d (beat_abs_idx ys) ys x =
         (ys ! seg (length ys) x - ys ! (seg (length ys) x - 1)) * (x - real (seg (length ys) x))
           + ys ! (seg (length ys) x - 1)"
proof -
  let ?h = "seg (length ys) x"
  have h: "1 \<le> ?h" "?h < length ys" using assms by (simp_all add: seg_def)
  then have lo: "beat_abs_idx ys ! (?h - 1) = real ?h"
    by (simp add: beat_abs_idx_nth)
  have hi: "beat_abs_idx ys ! ?h = real ?h + 1"
    using h by (simp add: beat_abs_idx_nth)
  show ?thesis
    unfolding interp1d_def searchsorted_beat_abs_idx length_beat_abs_idx Let_def
    unfolding seg_def [symmetric] lo hi by simp
qed

lemma seg_bounds:
  assumes "2 \<le> n"
  shows "1 \<le> seg n x" and "seg n x < n"
    and "seg n x < n - 1 \<Longrightarrow> x \<le> real (seg n x) + 1"
    and "1 < seg n x \<Longrightarrow> real (seg n x) < x"
proof -
  show "1 \<le> seg n x" "seg n x < n" using assms by (simp_all add: seg_def)
  show "x \<le> real (seg n x) + 1" if "seg n x < n - 1"
  proof -
    from that have "nat (\<lceil>x\<rceil> - 1) \<le> seg n x" unfolding seg_def by linarith
    then have "\<lceil>x\<rceil> \<le> int (seg n x) + 1" by linarith
    then have "x \<le> real_of_int (int (seg n x) + 1)" by (simp only: ceiling_le_iff)
    then show ?thesis by simp
  qed
  show "real (seg n x) < x" if "1 < seg n x"
  proof -
    from that have "seg n x \<le> nat (\<lceil>x\<rceil> - 1)" unfolding seg_def by linarith
    then have "int (seg n x) < \<lceil>x\<rceil>" using that by linarith
    then have "real_of_int (int (seg n x)) < x" by (simp only: less_ceiling_iff)
    then show ?thesis by simp
  qed
qed

lemma seg_mono: "x \<le> x' \<Longrightarrow> seg n x \<le> seg n x'"
  unfolding seg_def
  by (intro min.mono max.mono order_refl nat_mono diff_mono ceiling_mono)

text \<open>Over strictly increasing beats the beat map is strictly increasing.\<close>

lemma interp_strict_mono:
  assumes len: "2 \<le> length ys" and inc: "sorted_wrt (<) ys" and lt: "x < x'"
  shows "interp1d (beat_abs_idx ys) ys x < interp1d (beat_abs_idx ys) ys x'"
proof -
  let ?n = "length ys"
  let ?i = "seg ?n x" and ?j = "seg ?n x'"
  note bi = seg_bounds [OF len, of x] and bj = seg_bounds [OF len, of x']
  have step: "ys ! (k - 1) < ys ! k" if "1 \<le> k" "k < ?n" for k
    using inc that by (simp add: sorted_wrt_iff_nth_less)
  have le: "?i \<le> ?j" using lt by (simp add: seg_mono)
  show ?thesis
  proof (cases "?i = ?j")
    case True
    have "(ys ! ?j - ys ! (?j - 1)) * (x - real ?j) < (ys ! ?j - ys ! (?j - 1)) * (x' - real ?j)"
      using step [OF bj(1) bj(2)] lt by simp
    then show ?thesis
      unfolding interp1d_beat [OF len] True by simp
  next
    case False
    with le have ij: "?i < ?j" by simp
    then have "?i < ?n - 1" using bj(2) by linarith
    then have xle: "x \<le> real ?i + 1" by (rule bi(3))
    have "1 < ?j" using ij bi(1) by linarith
    then have xgt: "real ?j < x'" by (rule bj(4))
    have si: "0 < ys ! ?i - ys ! (?i - 1)" using step [OF bi(1) bi(2)] by simp
    have sj: "0 < ys ! ?j - ys ! (?j - 1)" using step [OF bj(1) bj(2)] by simp
    have "(ys ! ?i - ys ! (?i - 1)) * (x - real ?i) \<le> (ys ! ?i - ys ! (?i - 1)) * 1"
      using si xle by (intro mult_left_mono) simp_all
    then have a: "interp1d (beat_abs_idx ys) ys x \<le> ys ! ?i"
      unfolding interp1d_beat [OF len] by simp
    have mid: "ys ! ?i \<le> ys ! (?j - 1)"
    proof (cases "?i = ?j - 1")
      case True then show ?thesis by simp
    next
      case False
      then have "?i < ?j - 1" using ij by linarith
      moreover have "?j - 1 < ?n" using bj(2) by linarith
      ultimately have "ys ! ?i < ys ! (?j - 1)"
        using inc unfolding sorted_wrt_iff_nth_less by blast
      then show ?thesis by simp
    qed
    have "0 < (ys ! ?j - ys ! (?j - 1)) * (x' - real ?j)"
      using sj xgt by simp
    then have b: "ys ! (?j - 1) < interp1d (beat_abs_idx ys) ys x'"
      unfolding interp1d_beat [OF len] by simp
    from a mid b show ?thesis by linarith
  qed
qed




lemma np_round_ge_1:
  assumes "3 / 4 \<le> x"
  shows "1 \<le> np_round x"
proof (cases "\<lfloor>x\<rfloor> = 0")
  case True
  then have "1 / 2 < x - of_int \<lfloor>x\<rfloor>" using assms by simp
  then show ?thesis using True by (simp add: np_round_def Let_def)
next
  case False
  moreover have "0 \<le> \<lfloor>x\<rfloor>" using assms by simp
  ultimately have "1 \<le> \<lfloor>x\<rfloor>" by linarith
  then show ?thesis by (simp add: np_round_def Let_def)
qed


lemmas extract_mini_beat_unfold =
  extract_mini_beat_from_beat_arr_def divisions_def np_round_def mini_beat_abs_idx_def
  np_arange_def beat_abs_idx_def interp1d_def searchsorted_def upt_rec

subsection \<open>Claims on \<open>extract_mini_beat_from_beat_arr\<close>\<close>

text \<open>
  C2, as stated: for every integer \<open>mini_beat_div_n \<ge> 2\<close> the count of divisions per beat,
  \<open>round(mini_beat_div_n / 4)\<close>, is at least 1.  It fails at 2: \<open>2 / 4\<close> is the tie \<open>0.5\<close>,
  which \<open>np.round\<close> sends to the even neighbour 0.
\<close>

theorem divisions_two_is_zero: "(2 :: int) \<le> 2 \<and> divisions 2 = 0 \<and> \<not> 1 \<le> divisions 2"
  by (simp add: divisions_def np_round_def)

text \<open>
  C2, amended: for every integer \<open>mini_beat_div_n \<ge> 3\<close> the count of divisions per beat is
  at least 1, so the division by zero is out of reach from 3 on.
\<close>

theorem divisions_at_least_one: "3 \<le> mini_beat_div_n \<Longrightarrow> 1 \<le> divisions mini_beat_div_n"
  unfolding divisions_def by (rule np_round_ge_1) simp

theorem divisions_at_least_one_witness: "(3 :: int) \<le> 3 \<and> 1 \<le> divisions 3"
  using divisions_at_least_one [of 3] by simp




text \<open>
  C4: for strictly increasing beats, at least two of them, an audio length that is not
  negative and a \<open>mini_beat_div_n\<close> that rounds to at least one division, the function
  returns an array; the array is non-decreasing and each of its elements lies in
  \<open>[0, audio_len_sec]\<close>.
\<close>

theorem mini_beats_sorted_bounded:
  assumes "sorted_wrt (<) beat_arr" and "2 \<le> length beat_arr" and "0 \<le> audio_len_sec"
    and "1 \<le> divisions mini_beat_div_n"
  shows "\<exists>out. extract_mini_beat_from_beat_arr beat_arr audio_len_sec mini_beat_div_n = Inr out
           \<and> sorted out \<and> (\<forall>t\<in>set out. 0 \<le> t \<and> t \<le> audio_len_sec)"
proof -
  let ?d = "divisions mini_beat_div_n"
  let ?f = "interp1d (beat_abs_idx beat_arr) beat_arr"
  let ?pos = "map ?f (mini_beat_abs_idx (length beat_arr) ?d)"
  let ?out = "filter (\<lambda>x. x \<le> audio_len_sec) (filter (\<lambda>x. 0 \<le> x) ?pos)"
  have "sorted_wrt (\<lambda>x y. ?f x < ?f y) (mini_beat_abs_idx (length beat_arr) ?d)"
    using mini_beat_abs_idx_increasing [OF assms(4)]
    by (rule sorted_wrt_mono_rel [rotated]) (rule interp_strict_mono [OF assms(2,1)])
  then have "sorted_wrt (<) ?pos" by (simp only: sorted_wrt_map)
  then have "sorted_wrt (<) ?out" by (intro sorted_wrt_filter)
  then have "sorted ?out" by (rule strict_sorted_imp_sorted)
  moreover have "\<forall>t\<in>set ?out. 0 \<le> t \<and> t \<le> audio_len_sec" by simp
  moreover have "extract_mini_beat_from_beat_arr beat_arr audio_len_sec mini_beat_div_n = Inr ?out"
    using assms(2,4) by (simp add: extract_mini_beat_from_beat_arr_def Let_def)
  ultimately show ?thesis by blast
qed

theorem mini_beats_sorted_bounded_witness:
  "sorted_wrt (<) [1, 2, 3, 4 :: real] \<and> 2 \<le> length [1, 2, 3, 4 :: real] \<and> (0 :: real) \<le> 4
   \<and> 1 \<le> divisions 8
   \<and> (\<exists>out. extract_mini_beat_from_beat_arr [1, 2, 3, 4] 4 8 = Inr out
         \<and> sorted out \<and> list_all (\<lambda>t. 0 \<le> t \<and> t \<le> 4) out)"
  using mini_beats_sorted_bounded [of "[1, 2, 3, 4]" 4 8]
  by (simp add: divisions_def np_round_def list_all_iff)



subsection \<open>The tempo of a beat array\<close>

lemma trim_lo_div: "trim_lo xs = length xs div 5"
proof -
  have "real (length xs) * 0.2 = real (length xs) / real 5" by simp
  then show ?thesis unfolding trim_lo_def by (simp only: floor_divide_of_nat_eq nat_int)
qed

lemma trim_hi_div: "trim_hi xs = (4 * length xs) div 5"
proof -
  have "real (length xs) * 0.8 = real (4 * length xs) / real 5" by simp
  then show ?thesis unfolding trim_hi_def by (simp only: floor_divide_of_nat_eq nat_int)
qed

lemma length_beat_diffs: "length (beat_diffs xs) = length xs - 1"
  by (simp add: beat_diffs_def)

lemma beat_diffs_pos:
  assumes "sorted_wrt (<) xs" and "d \<in> set (beat_diffs xs)"
  shows "0 < d"
proof -
  from assms(2) obtain i where i: "i < length xs - 1" and d: "d = tl xs ! i - butlast xs ! i"
    unfolding beat_diffs_def by (auto simp: set_zip)
  have "butlast xs ! i = xs ! i" using i by (simp add: nth_butlast)
  moreover have "tl xs ! i = xs ! Suc i" using i by (simp add: nth_tl)
  moreover have "xs ! i < xs ! Suc i"
    using assms(1) i by (simp add: sorted_wrt_iff_nth_less)
  ultimately show ?thesis using d by simp
qed

lemma length_trimmed_intervals:
  "length (trimmed_intervals xs) = (4 * length xs) div 5 - length xs div 5"
proof -
  have "(4 * length xs) div 5 \<le> length xs - 1 \<or> length xs = 0" by linarith
  then show ?thesis
    unfolding trimmed_intervals_def py_slice_def trim_lo_div trim_hi_div
    by (auto simp: length_beat_diffs)
qed

lemma trimmed_intervals_nonempty:
  assumes "2 \<le> length xs"
  shows "trimmed_intervals xs \<noteq> []"
proof -
  have "length xs div 5 < (4 * length xs) div 5" using assms by linarith
  then have "0 < length (trimmed_intervals xs)" by (simp add: length_trimmed_intervals)
  then show ?thesis by simp
qed

lemma set_trimmed_intervals: "set (trimmed_intervals xs) \<subseteq> set (beat_diffs xs)"
proof -
  have "set (trimmed_intervals xs) \<subseteq> set (sort (beat_diffs xs))"
    unfolding trimmed_intervals_def py_slice_def
    by (meson set_drop_subset set_take_subset subset_trans)
  then show ?thesis by simp
qed

lemma sum_list_pos_real:
  fixes ds :: "real list"
  assumes "ds \<noteq> []" and "\<forall>d\<in>set ds. 0 < d"
  shows "0 < sum_list ds"
  using assms by (induction ds) (auto intro: add_pos_nonneg sum_list_nonneg less_imp_le)

lemma pred_bpm_increasing:
  assumes "sorted_wrt (<) pred_beats" and "2 \<le> length pred_beats"
  shows "0 < sum_list (trimmed_intervals pred_beats) / real (length (trimmed_intervals pred_beats))"
    and "pred_bpm pred_beats =
         Some (60 / (sum_list (trimmed_intervals pred_beats)
                      / real (length (trimmed_intervals pred_beats))))"
proof -
  let ?ds = "trimmed_intervals pred_beats"
  have ne: "?ds \<noteq> []" using assms(2) by (rule trimmed_intervals_nonempty)
  have "\<forall>d\<in>set ?ds. 0 < d"
    using set_trimmed_intervals beat_diffs_pos [OF assms(1)] by blast
  then have "0 < sum_list ?ds" using ne by (simp add: sum_list_pos_real)
  moreover have "0 < real (length ?ds)" using ne by simp
  ultimately show m: "0 < sum_list ?ds / real (length ?ds)" by simp
  have "pred_beat_len pred_beats = Some (sum_list ?ds / real (length ?ds))"
    using ne by (simp add: pred_beat_len_def np_mean_def)
  moreover have "sum_list ?ds / real (length ?ds) \<noteq> 0" using m by linarith
  ultimately show "pred_bpm pred_beats = Some (60 / (sum_list ?ds / real (length ?ds)))"
    by (simp only: pred_bpm_def option.case if_False)
qed

lemmas pred_bpm_unfold =
  pred_bpm_def pred_beat_len_def trimmed_intervals_def py_slice_def beat_diffs_def
  trim_lo_def trim_hi_def np_mean_def

text \<open>
  C1, as stated: the tempo is 60 over the mean of the sorted inter-beat intervals without
  their fastest 20% and their slowest 20%, the percentages taken of the number of
  intervals.  It fails for the beats 0, 1, 3, 6, 10: of the four intervals 1, 2, 3, 4 the
  code drops the shortest alone and answers 20, where the claim gives 24.
\<close>

theorem pred_bpm_not_interval_trimmed:
  "sorted_wrt (<) [0, 1, 3, 6, 10 :: real] \<and> 2 \<le> length [0, 1, 3, 6, 10 :: real]
   \<and> pred_bpm [0, 1, 3, 6, 10] = Some 20 \<and> spec_bpm [0, 1, 3, 6, 10] = Some 24
   \<and> pred_bpm [0, 1, 3, 6, 10] \<noteq> spec_bpm [0, 1, 3, 6, 10]"
  by (simp add: pred_bpm_unfold spec_bpm_def spec_trimmed_intervals_def)

text \<open>
  C1, amended: for strictly increasing beats, \<open>N \<ge> 2\<close> of them, the tempo is 60 over the
  mean of the sorted inter-beat intervals at the positions from \<open>\<lfloor>0.2 N\<rfloor>\<close> up to, not
  including, \<open>\<lfloor>0.8 N\<rfloor>\<close>, the bounds taken of the number \<open>N\<close> of beats: the \<open>\<lfloor>N / 5\<rfloor>\<close> shortest
  and the \<open>N - 1 - \<lfloor>4 N / 5\<rfloor>\<close> longest of the \<open>N - 1\<close> intervals are discarded.
\<close>

theorem pred_bpm_trims_by_beat_count:
  assumes "sorted_wrt (<) pred_beats" and "2 \<le> length pred_beats"
  shows "\<exists>fast mid slow.
           sort (beat_diffs pred_beats) = fast @ mid @ slow
         \<and> length fast = length pred_beats div 5
         \<and> length slow = length pred_beats - 1 - (4 * length pred_beats) div 5
         \<and> mid \<noteq> []
         \<and> pred_bpm pred_beats = Some (60 / (sum_list mid / real (length mid)))"
proof -
  let ?n = "length pred_beats"
  let ?S = "sort (beat_diffs pred_beats)"
  let ?lo = "?n div 5" and ?hi = "(4 * ?n) div 5"
  let ?mid = "drop ?lo (take ?hi ?S)"
  have len: "length ?S = ?n - 1" by (simp add: length_beat_diffs)
  have lohi: "?lo \<le> ?hi" "?hi \<le> ?n - 1" using assms(2) by linarith+
  have mid: "trimmed_intervals pred_beats = ?mid"
    by (simp add: trimmed_intervals_def py_slice_def trim_lo_div trim_hi_div)
  have "take ?hi ?S = take ?lo (take ?hi ?S) @ ?mid" by (simp only: append_take_drop_id)
  also have "take ?lo (take ?hi ?S) = take ?lo ?S" using lohi(1) by (simp add: min_def)
  finally have "?S = take ?lo ?S @ ?mid @ drop ?hi ?S"
    by (metis append_take_drop_id append_assoc)
  moreover have "length (take ?lo ?S) = ?lo" using lohi len by simp
  moreover have "length (drop ?hi ?S) = ?n - 1 - ?hi" using len by simp
  moreover have "?mid \<noteq> []"
    using trimmed_intervals_nonempty [OF assms(2)] unfolding mid .
  moreover have "pred_bpm pred_beats = Some (60 / (sum_list ?mid / real (length ?mid)))"
    using pred_bpm_increasing(2) [OF assms] unfolding mid .
  ultimately show ?thesis by blast
qed

theorem pred_bpm_trims_by_beat_count_witness:
  "sorted_wrt (<) [0, 1, 3, 6, 10 :: real] \<and> 2 \<le> length [0, 1, 3, 6, 10 :: real]
   \<and> (\<exists>fast mid slow. sort (beat_diffs [0, 1, 3, 6, 10]) = fast @ mid @ slow
         \<and> length fast = 1 \<and> length slow = 0 \<and> mid \<noteq> []
         \<and> pred_bpm [0, 1, 3, 6, 10] = Some (60 / (sum_list mid / real (length mid))))"
  using pred_bpm_trims_by_beat_count [of "[0, 1, 3, 6, 10]"] by simp

text \<open>
  C6: for strictly increasing beats, at least two of them, the slice of intervals that
  enters the mean is not empty and the tempo is a positive number (a real, in this model;
  the overflow of a float is not modelled).
\<close>

theorem pred_bpm_positive:
  assumes "sorted_wrt (<) pred_beats" and "2 \<le> length pred_beats"
  shows "trimmed_intervals pred_beats \<noteq> []
         \<and> (\<exists>bpm. pred_bpm pred_beats = Some bpm \<and> 0 < bpm)"
proof -
  let ?m = "sum_list (trimmed_intervals pred_beats) / real (length (trimmed_intervals pred_beats))"
  have "(0 :: real) < 60 / ?m"
    by (rule divide_pos_pos [OF _ pred_bpm_increasing(1) [OF assms]]) simp
  then show ?thesis
    using trimmed_intervals_nonempty [OF assms(2)] pred_bpm_increasing(2) [OF assms] by blast
qed

theorem pred_bpm_positive_witness:
  "sorted_wrt (<) [0, 1 / 2, 1 :: real] \<and> 2 \<le> length [0, 1 / 2, 1 :: real]
   \<and> trimmed_intervals [0, 1 / 2, 1] \<noteq> []
   \<and> (\<exists>bpm. pred_bpm [0, 1 / 2, 1] = Some bpm \<and> 0 < bpm)"
  using pred_bpm_positive [of "[0, 1 / 2, 1]"] by simp

subsection \<open>\<open>MadmomBeatTracking.process\<close>\<close>

lemma queue_inj: "queue f = queue g \<Longrightarrow> f = g"
  by (cases f; cases g) simp_all

text \<open>Whatever the order of completion, a job's result is stored under its own name.\<close>

lemma collect_queue:
  "f \<in> set completed \<Longrightarrow> collect result completed (queue f) = Some (result f)"
proof (induction completed rule: rev_induct)
  case Nil
  then show ?case by simp
next
  case (snoc g gs)
  show ?case
  proof (cases "f = g")
    case True
    then show ?thesis by (simp add: collect_def)
  next
    case False
    then have "queue g \<noteq> queue f" using queue_inj by blast
    moreover have "f \<in> set gs" using snoc.prems False by simp
    ultimately show ?thesis using snoc.IH by (simp add: collect_def)
  qed
qed

lemma done_before_exit: "done_at sch f \<le> executor_exit sch"
  by (cases f) (simp_all add: executor_exit_def)

text \<open>Once the executor is shut down no future is pending, whatever the timeout.\<close>

lemma as_completed_after_exit:
  "as_completed sch (executor_exit sch) timeout = Inr (iteration sch)"
proof -
  have "filter (\<lambda>f. done_at sch f \<le> executor_exit sch) (iteration sch) = iteration sch"
    by (simp add: done_before_exit)
  moreover have "filter (\<lambda>f. executor_exit sch < done_at sch f) (iteration sch) = []"
    by (simp add: done_before_exit not_less)
  ultimately show ?thesis by (simp add: as_completed_def)
qed

lemma collected_results:
  assumes "set (iteration sch) = {future_1, future_2, future_3}"
  shows "collect (submitted M self audio_data) (iteration sch) dbn_down_beat
           = Some (get_dbn_down_beat M self audio_data (Some 50) (Some 230))"
    and "collect (submitted M self audio_data) (iteration sch) dbn_beat
           = Some (get_dbn_beat M self audio_data)"
    and "collect (submitted M self audio_data) (iteration sch) beat
           = Some (get_beat M self audio_data)"
  using collect_queue [of future_1 "iteration sch" "submitted M self audio_data"]
    collect_queue [of future_2 "iteration sch" "submitted M self audio_data"]
    collect_queue [of future_3 "iteration sch" "submitted M self audio_data"] assms
  by simp_all

lemma process_parallel_eq:
  assumes "set (iteration sch) = {future_1, future_2, future_3}"
  shows "process_parallel M self sch audio_data = Inr (process_sequential M self audio_data)"
  by (simp add: process_parallel_def as_completed_after_exit lookup_def
      collected_results [OF assms] process_sequential_def)

lemma process_sequential_workers:
  "process_sequential M (self\<lparr>parallel_workers := w\<rparr>) audio_data
     = process_sequential M self audio_data"
  by (simp add: process_sequential_def last_step_def get_dbn_down_beat_def get_dbn_beat_def
      get_beat_def)

lemma process_eq:
  assumes "set (iteration sch) = {future_1, future_2, future_3}" and "0 \<le> parallel_workers self"
  shows "process M self sch audio_data = Inr (process_sequential M self audio_data)"
  using assms(2) by (simp add: process_def process_parallel_eq [OF assms(1)])

lemmas process_unfold =
  process_def process_parallel_def process_sequential_def executor_exit_def as_completed_def
  collect_def lookup_def last_step_def get_dbn_down_beat_def get_dbn_beat_def get_beat_def
  pred_bpm_avg_def demo_madmom_def demo_tracker_def slow_schedule_def

text \<open>
  C5: \<open>process\<close> takes the unweighted mean of the three first-pass tempi (no number when
  one of them is none), calls the down-beat tracker again with \<open>min_bpm\<close> the mean divided
  by 1.38 and \<open>max_bpm\<close> the mean times 1.38, and returns that result unchanged.  The
  worker count is not negative and the set of futures holds the three jobs.
\<close>

theorem process_second_pass:
  assumes "0 \<le> parallel_workers self"
    and "set (iteration sch) = {future_1, future_2, future_3}"
  shows "(let consensus =
            pred_bpm_avg (pred_bpm (get_dbn_down_beat M self audio_data (Some 50) (Some 230)))
              (pred_bpm (get_dbn_beat M self audio_data))
              (pred_bpm (get_beat M self audio_data))
          in process M self sch audio_data =
             Inr (get_dbn_down_beat M self audio_data
                    (map_option (\<lambda>c. c / 1.38) consensus)
                    (map_option (\<lambda>c. c * 1.38) consensus)))
         \<and> pred_bpm_avg (Some x) (Some y) (Some z) = Some ((x + y + z) / 3)"
proof -
  have "pred_bpm_avg (Some x) (Some y) (Some z) = Some ((x + y + z) / 3)"
    by (simp add: pred_bpm_avg_def np_mean_def)
  then show ?thesis
    by (simp add: process_eq [OF assms(2,1)] process_sequential_def last_step_def Let_def)
qed

theorem process_second_pass_witness:
  "0 \<le> parallel_workers demo_tracker
   \<and> set (iteration slow_schedule) = {future_1, future_2, future_3}
   \<and> pred_bpm (get_dbn_down_beat demo_madmom demo_tracker [] (Some 50) (Some 230)) = Some 50
   \<and> pred_bpm (get_dbn_beat demo_madmom demo_tracker []) = Some 60
   \<and> pred_bpm (get_beat demo_madmom demo_tracker []) = Some 120
   \<and> process demo_madmom demo_tracker slow_schedule [] =
       Inr (get_dbn_down_beat demo_madmom demo_tracker []
              (Some (230 / 3 / 1.38)) (Some (230 / 3 * 1.38)))"
  using process_second_pass [of demo_tracker slow_schedule demo_madmom "[]" 50 60 120]
  by (simp add: demo_madmom_def demo_tracker_def slow_schedule_def get_dbn_down_beat_def
      get_dbn_beat_def get_beat_def pred_bpm_unfold insert_commute)

text \<open>
  C7: with the same estimators (functions of their inputs), \<open>process\<close> with
  \<open>parallel_workers = 0\<close> and \<open>process\<close> with a positive worker count return the same beat
  array, in whatever order the three jobs complete; the results dictionary of the parallel
  branch holds, under each name, the array that the sequential branch computes.
\<close>

theorem process_sequential_parallel_agree:
  assumes "set (iteration sch) = {future_1, future_2, future_3}" and "0 < workers"
  shows "process M (self\<lparr>parallel_workers := 0\<rparr>) sch audio_data
           = process M (self\<lparr>parallel_workers := workers\<rparr>) sch audio_data
       \<and> lookup (collect (submitted M self audio_data) (iteration sch)) dbn_down_beat
           = Inr (get_dbn_down_beat M self audio_data (Some 50) (Some 230))
       \<and> lookup (collect (submitted M self audio_data) (iteration sch)) dbn_beat
           = Inr (get_dbn_beat M self audio_data)
       \<and> lookup (collect (submitted M self audio_data) (iteration sch)) beat
           = Inr (get_beat M self audio_data)"
  using assms(2)
  by (simp add: process_eq [OF assms(1)] process_sequential_workers lookup_def
      collected_results [OF assms(1)])

theorem process_sequential_parallel_agree_witness:
  "set (iteration slow_schedule) = {future_1, future_2, future_3} \<and> (0 :: int) < 3
   \<and> process demo_madmom (demo_tracker\<lparr>parallel_workers := 0\<rparr>) slow_schedule []
       = process demo_madmom (demo_tracker\<lparr>parallel_workers := 3\<rparr>) slow_schedule []"
  using process_sequential_parallel_agree [of slow_schedule 3 demo_madmom demo_tracker "[]"]
  by (simp add: slow_schedule_def insert_commute)

text \<open>
  C8 says that in parallel mode a wait of more than 600 seconds for the three jobs ends
  in a timeout error.  In the code \<open>as_completed(queue, timeout=600)\<close> is called after the
  \<open>with\<close> block of the executor, whose exit has waited for all three jobs: with every job
  taking 700 seconds \<open>process\<close> returns the beat array of the last tracking step and raises
  nothing.
\<close>

theorem process_waits_past_600:
  "0 < parallel_workers demo_tracker
   \<and> 600 < done_at slow_schedule future_1 \<and> 600 < done_at slow_schedule future_2
   \<and> 600 < done_at slow_schedule future_3
   \<and> process demo_madmom demo_tracker slow_schedule [] = Inr [0, 27 / 25]
   \<and> process demo_madmom demo_tracker slow_schedule [] \<noteq> Inl TimeoutError"
  by (simp add: process_unfold pred_bpm_unfold)

subsection \<open>\<open>extract_mini_beat_from_beat_arr\<close> and the caller's arrays\<close>

lemma returned_st:
  assumes "beat_arr < length s"
  shows "returned (extract_mini_beat_from_beat_arr_st beat_arr audio_len_sec mini_beat_div_n s)
       = extract_mini_beat_from_beat_arr (s ! beat_arr) audio_len_sec mini_beat_div_n"
  using assms
  by (simp add: extract_mini_beat_from_beat_arr_st_def extract_mini_beat_from_beat_arr_def
      returned_def new_array_def Let_def nth_append)

lemma store_kept:
  "take (length s)
     (snd (extract_mini_beat_from_beat_arr_st beat_arr audio_len_sec mini_beat_div_n s)) = s"
  by (simp add: extract_mini_beat_from_beat_arr_st_def new_array_def Let_def)

lemma take_eq_nth: "take n t = s \<Longrightarrow> i < length s \<Longrightarrow> t ! i = s ! i"
  by (metis length_take min_less_iff_conj nth_take)

lemma take_eq_length: "take n t = s \<Longrightarrow> n = length s \<Longrightarrow> length s \<le> length t"
  by (metis length_take min.cobounded1)

text \<open>
  C10: a call returns the array that the function of the inputs' values determines; a
  second call with the same inputs, made in the store the first one left, returns an equal
  array; and both calls leave every array that was there before them, the beat array among
  them, as it was.
\<close>

theorem extract_mini_beat_pure:
  assumes "beat_arr < length s"
  shows "(let r1 = extract_mini_beat_from_beat_arr_st beat_arr audio_len_sec mini_beat_div_n s;
              r2 = extract_mini_beat_from_beat_arr_st beat_arr audio_len_sec mini_beat_div_n (snd r1)
          in returned r1 = extract_mini_beat_from_beat_arr (s ! beat_arr) audio_len_sec mini_beat_div_n
           \<and> returned r2 = returned r1
           \<and> take (length s) (snd r1) = s \<and> take (length s) (snd r2) = s
           \<and> snd r1 ! beat_arr = s ! beat_arr \<and> snd r2 ! beat_arr = s ! beat_arr)"
proof -
  let ?f = "extract_mini_beat_from_beat_arr_st beat_arr audio_len_sec mini_beat_div_n"
  let ?s1 = "snd (?f s)" and ?s2 = "snd (?f (snd (?f s)))"
  have k1: "take (length s) ?s1 = s" by (rule store_kept)
  have k2: "take (length ?s1) ?s2 = ?s1" by (rule store_kept)
  have len: "length s \<le> length ?s1" using k1 by (rule take_eq_length) simp
  have a1: "?s1 ! beat_arr = s ! beat_arr" using k1 assms by (rule take_eq_nth)
  have b1: "beat_arr < length ?s1" using assms len by linarith
  have a2: "?s2 ! beat_arr = ?s1 ! beat_arr" using k2 b1 by (rule take_eq_nth)
  have "take (length s) ?s2 = take (length s) (take (length ?s1) ?s2)"
    using len by (simp add: min_def)
  then have k3: "take (length s) ?s2 = s" by (simp only: k2 k1)
  have r1: "returned (?f s) = extract_mini_beat_from_beat_arr (s ! beat_arr) audio_len_sec mini_beat_div_n"
    by (rule returned_st [OF assms])
  have r2: "returned (?f ?s1) = extract_mini_beat_from_beat_arr (s ! beat_arr) audio_len_sec mini_beat_div_n"
    by (simp only: returned_st [OF b1] a1)
  show ?thesis
    unfolding Let_def using r1 r2 k1 k3 a1 a2 by simp
qed

theorem extract_mini_beat_pure_witness:
  "(0 :: nat) < length [[1, 2 :: real]]
   \<and> returned (extract_mini_beat_from_beat_arr_st 0 2 4 [[1, 2]]) = Inr [0, 1, 2]
   \<and> returned (extract_mini_beat_from_beat_arr_st 0 2 4
                 (snd (extract_mini_beat_from_beat_arr_st 0 2 4 [[1, 2]]))) = Inr [0, 1, 2]
   \<and> snd (extract_mini_beat_from_beat_arr_st 0 2 4 [[1, 2]]) ! 0 = [1, 2]"
  using extract_mini_beat_pure [of 0 "[[1, 2]]" 2 4]
  by (simp add: Let_def extract_mini_beat_unfold)

end
